theory Spec2Isabelle
  imports Main "HOL-Library.Word"
begin

section \<open>Data model\<close>

text \<open>
  The development follows the HTTP based revision of the cache (the second file of
  \<^verbatim>\<open>src/unnamed/part_004\<close>, lines 242 to 490) together with the helpers of
  \<^verbatim>\<open>src/cache/consul.go\<close>. The earlier revisions (\<^verbatim>\<open>src/cache/cache.go\<close> and the
  first file of \<^verbatim>\<open>part_004\<close>) order their statements in the same way.

  Go's \<^verbatim>\<open>int\<close> and \<^verbatim>\<open>ClockValue\<close> (an \<^verbatim>\<open>int64\<close>) are signed; the cache only
  copies and compares them, so they are integers here. A \<^verbatim>\<open>[]byte\<close> is a list of
  8-bit words. The reader-writer lock is left out: every operation below is one critical
  section, run to its end.
\<close>

type_synonym bytes = "8 word list"

type_synonym ClockValue = int

text \<open>Go's \<^verbatim>\<open>error\<close>: \<^verbatim>\<open>nil\<close> is \<open>None\<close>; \<^verbatim>\<open>io.EOF\<close> is the value \<open>EOF\<close>.\<close>

datatype error = EOF | Error string

record consulValue =
  CreateIndex :: int
  ModifyIndex :: int
  Key :: string
  Flags :: int
  Value :: bytes

record Value =
  Key :: string
  Value :: bytes
  Clock :: ClockValue

record ConsulKVCache =
  prefix :: string
  cache :: "string \<rightharpoonup> Value"
  clock :: ClockValue
  exit :: bool

section \<open>The remote store, as seen by one call\<close>

text \<open>
  The network is outside the program. Each remote call takes what the network did with
  it as an argument: which step of the HTTP exchange failed, or the response. The integer
  of \<open>GetResponse\<close> is what \<^verbatim>\<open>strconv.Atoi\<close> returns for the header
  \<^verbatim>\<open>X-Consul-Index\<close> (its error is dropped by the callers).
\<close>

datatype put_outcome = PutNewRequestError error | PutDoError error | PutResponse bytes

datatype delete_outcome = DeleteNewRequestError error | DeleteDoError error | DeleteResponse

datatype decode_outcome = Decoded "consulValue list" | DecodeError error

datatype get_outcome = GetError error | GetResponse int decode_outcome

definition bTrue :: bytes where
  "bTrue = [0x74, 0x72, 0x75, 0x65, 0x0A]"

text \<open>
  \<^verbatim>\<open>setConsulKV\<close>: the error of \<^verbatim>\<open>http.NewRequest\<close> or of \<^verbatim>\<open>Do\<close> is returned. On a
  response whose body is not \<^verbatim>\<open>"true\n"\<close> the source builds an error with
  \<^verbatim>\<open>errors.New\<close> and drops it, so both branches return \<^verbatim>\<open>nil\<close>.
\<close>

fun setConsulKV :: "string \<Rightarrow> bytes \<Rightarrow> put_outcome \<Rightarrow> error option" where
  "setConsulKV key val (PutNewRequestError err) = Some err"
| "setConsulKV key val (PutDoError err) = Some err"
| "setConsulKV key val (PutResponse data) = (if data \<noteq> bTrue then None else None)"

fun delConsulKV :: "string \<Rightarrow> bool \<Rightarrow> delete_outcome \<Rightarrow> error option" where
  "delConsulKV key rec (DeleteNewRequestError err) = Some err"
| "delConsulKV key rec (DeleteDoError err) = Some err"
| "delConsulKV key rec DeleteResponse = None"

section \<open>The cache\<close>

definition NewConsulKVCache :: "string \<Rightarrow> ConsulKVCache" where
  "NewConsulKVCache p = \<lparr>prefix = p @ ''/'', cache = Map.empty, clock = 0, exit = False\<rparr>"

definition Clock_of :: "ConsulKVCache \<Rightarrow> ClockValue" where
  "Clock_of c = clock c"

definition Size :: "ConsulKVCache \<Rightarrow> nat" where
  "Size c = card (dom (cache c))"

definition Close :: "ConsulKVCache \<Rightarrow> ConsulKVCache" where
  "Close c = c\<lparr>exit := True\<rparr>"

definition Get :: "ConsulKVCache \<Rightarrow> string \<Rightarrow> Value option \<times> bool" where
  "Get c key = (cache c (prefix c @ key), cache c (prefix c @ key) \<noteq> None)"

subsection \<open>Repopulate\<close>

text \<open>The entry that \<^verbatim>\<open>Repopulate\<close> builds for a listed value: the listed key is kept as it is.\<close>

definition listed_entry :: "consulValue \<Rightarrow> Value" where
  "listed_entry val =
     \<lparr>Key = consulValue.Key val, Value = consulValue.Value val, Clock = ModifyIndex val\<rparr>"

text \<open>The loop of \<^verbatim>\<open>Repopulate\<close> that fills the fresh table.\<close>

fun Repopulate_fill :: "consulValue list \<Rightarrow> (string \<rightharpoonup> Value) \<Rightarrow> (string \<rightharpoonup> Value)" where
  "Repopulate_fill [] tbl = tbl"
| "Repopulate_fill (val # vals) tbl =
     Repopulate_fill vals (tbl(consulValue.Key val \<mapsto> listed_entry val))"

fun Repopulate :: "ConsulKVCache \<Rightarrow> get_outcome \<Rightarrow> ConsulKVCache \<times> error option" where
  "Repopulate c (GetError err) = (c, Some err)"
| "Repopulate c (GetResponse idx (DecodeError err)) = (c, Some err)"
| "Repopulate c (GetResponse idx (Decoded vals)) =
     (if length vals = 0 then (c, None)
      else (c\<lparr>clock := idx, cache := Repopulate_fill vals Map.empty\<rparr>, None))"

subsection \<open>BackgroundUpdate\<close>

text \<open>\<^verbatim>\<open>filepath.Split\<close> on a slash separated path: the part after the last slash.\<close>

definition Split_file :: "string \<Rightarrow> string" where
  "Split_file path = rev (takeWhile (\<lambda>ch. ch \<noteq> CHR ''/'') (rev path))"

fun fullSync :: "consulValue list \<Rightarrow> bool" where
  "fullSync [] = False"
| "fullSync (val # vals) =
     (if Split_file (consulValue.Key val) = ''__sync'' then True else fullSync vals)"

text \<open>
  The entry that the merge loop builds for a changed value: \<^verbatim>\<open>val.Key[plen:]\<close> is the
  key without its first \<open>plen\<close> bytes.
\<close>

definition merged_entry :: "nat \<Rightarrow> consulValue \<Rightarrow> Value" where
  "merged_entry plen val =
     \<lparr>Key = drop plen (consulValue.Key val), Value = consulValue.Value val,
      Clock = ModifyIndex val\<rparr>"

text \<open>
  The merge loop. \<^verbatim>\<open>val.Key[plen:]\<close> panics when the key is shorter than \<open>plen\<close>;
  \<open>None\<close> is that panic.
\<close>

fun merge :: "nat \<Rightarrow> consulValue list \<Rightarrow> (string \<rightharpoonup> Value) \<Rightarrow> (string \<rightharpoonup> Value) option" where
  "merge plen [] tbl = Some tbl"
| "merge plen (val # vals) tbl =
     (if length (consulValue.Key val) < plen then None
      else merge plen vals (tbl(consulValue.Key val \<mapsto> merged_entry plen val)))"

text \<open>
  One turn of the loop of \<^verbatim>\<open>BackgroundUpdate\<close>, from the watch call to the next
  \<^verbatim>\<open>continue\<close>: the state and the loop variable \<^verbatim>\<open>idx\<close> go in, with the outcome of
  the watch call and the outcome of the listing that \<^verbatim>\<open>Repopulate\<close> would issue.
\<close>

datatype turn = Return ConsulKVCache | Continue ConsulKVCache int | Panic

fun BackgroundUpdate_turn ::
  "ConsulKVCache \<Rightarrow> int \<Rightarrow> get_outcome \<Rightarrow> get_outcome \<Rightarrow> turn" where
  "BackgroundUpdate_turn c idx (GetError err) listing =
     (if exit c then Return c else Continue c idx)"
| "BackgroundUpdate_turn c idx (GetResponse idx' (DecodeError err)) listing =
     (if exit c then Return c
      else if err \<noteq> EOF then Continue c idx'
      else Continue c idx')"
| "BackgroundUpdate_turn c idx (GetResponse idx' (Decoded vals)) listing =
     (if exit c then Return c
      else if length vals = 0 then Continue c idx'
      else if fullSync vals then Continue (fst (Repopulate c listing)) idx'
      else (case merge (length (prefix c)) vals (cache c) of
              None \<Rightarrow> Panic
            | Some tbl \<Rightarrow> Continue (c\<lparr>clock := idx', cache := tbl\<rparr>) idx'))"

text \<open>
  The loop over a finite schedule. An element of the schedule says whether \<^verbatim>\<open>Close\<close> was
  called (by another goroutine) since the last check of the flag, and gives the two
  outcomes of the turn. \<open>None\<close>: the loop is still running when the schedule ends.
\<close>

datatype finish = Returned ConsulKVCache | Panicked

fun BackgroundUpdate_loop ::
  "ConsulKVCache \<Rightarrow> int \<Rightarrow> (bool \<times> get_outcome \<times> get_outcome) list \<Rightarrow> finish option" where
  "BackgroundUpdate_loop c idx [] = None"
| "BackgroundUpdate_loop c idx ((closed, watch, listing) # rest) =
     (case BackgroundUpdate_turn (if closed then Close c else c) idx watch listing of
        Return c' \<Rightarrow> Some (Returned c')
      | Continue c' idx' \<Rightarrow> BackgroundUpdate_loop c' idx' rest
      | Panic \<Rightarrow> Some Panicked)"

definition BackgroundUpdate ::
  "ConsulKVCache \<Rightarrow> (bool \<times> get_outcome \<times> get_outcome) list \<Rightarrow> finish option" where
  "BackgroundUpdate c schedule = BackgroundUpdate_loop c 0 schedule"

subsection \<open>GetPrefix\<close>

text \<open>\<^verbatim>\<open>strings.HasPrefix\<close>.\<close>

definition HasPrefix :: "string \<Rightarrow> string \<Rightarrow> bool" where
  "HasPrefix s p = (length p \<le> length s \<and> take (length p) s = p)"

text \<open>
  Go ranges over a map in an order of its choosing: the order \<open>ks\<close> in which the keys are
  visited is an argument. A key of \<open>ks\<close> that the table does not hold is skipped.
\<close>

fun GetPrefix_loop ::
  "string \<Rightarrow> (string \<rightharpoonup> Value) \<Rightarrow> string list \<Rightarrow> Value list \<times> ClockValue \<Rightarrow> Value list \<times> ClockValue" where
  "GetPrefix_loop p tbl [] acc = acc"
| "GetPrefix_loop p tbl (k # ks) (vals, mx) =
     (case tbl k of
        None \<Rightarrow> GetPrefix_loop p tbl ks (vals, mx)
      | Some v \<Rightarrow>
          (if HasPrefix k p
           then GetPrefix_loop p tbl ks (vals @ [v], if Clock v > mx then Clock v else mx)
           else GetPrefix_loop p tbl ks (vals, mx)))"

definition GetPrefix :: "ConsulKVCache \<Rightarrow> string \<Rightarrow> string list \<Rightarrow> Value list \<times> ClockValue" where
  "GetPrefix c p ks = GetPrefix_loop (prefix c @ p) (cache c) ks ([], 0)"

subsection \<open>Set and Delete\<close>

definition Set :: "ConsulKVCache \<Rightarrow> string \<Rightarrow> bytes \<Rightarrow> put_outcome \<Rightarrow> ConsulKVCache \<times> error option" where
  "Set c key val put =
     (let xkey = prefix c @ key;
          c' = c\<lparr>cache := (cache c)(xkey \<mapsto> \<lparr>Key = key, Value = val, Clock = clock c\<rparr>)\<rparr>;
          err = setConsulKV xkey val put
      in (c', err))"

text \<open>The result of \<^verbatim>\<open>delConsulKV\<close> is not bound in the source.\<close>

definition Delete ::
  "ConsulKVCache \<Rightarrow> string \<Rightarrow> delete_outcome \<Rightarrow> put_outcome \<Rightarrow> ConsulKVCache \<times> error option" where
  "Delete c key del put =
     (let key' = prefix c @ key;
          c' = c\<lparr>cache := (cache c)(key' := None)\<rparr>;
          dropped = delConsulKV key' False del;
          err = setConsulKV (prefix c @ ''__sync'') [0x31] put
      in (c', err))"

subsection \<open>Sequences of operations\<close>

datatype operation =
    OpRepopulate get_outcome
  | OpBackground get_outcome get_outcome
  | OpSet string bytes put_outcome
  | OpDelete string delete_outcome put_outcome

text \<open>The state after an operation; \<open>None\<close> when the merge loop panicked.\<close>

fun apply_op :: "ConsulKVCache \<Rightarrow> operation \<Rightarrow> ConsulKVCache option" where
  "apply_op c (OpRepopulate listing) = Some (fst (Repopulate c listing))"
| "apply_op c (OpBackground watch listing) =
     (case BackgroundUpdate_turn c 0 watch listing of
        Return c' \<Rightarrow> Some c'
      | Continue c' idx' \<Rightarrow> Some c'
      | Panic \<Rightarrow> None)"
| "apply_op c (OpSet key val put) = Some (fst (Set c key val put))"
| "apply_op c (OpDelete key del put) = Some (fst (Delete c key del put))"

fun run :: "ConsulKVCache \<Rightarrow> operation list \<Rightarrow> ConsulKVCache option" where
  "run c [] = Some c"
| "run c (op # ops) = (case apply_op c op of None \<Rightarrow> None | Some c' \<Rightarrow> run c' ops)"

subsection \<open>Conditions on what the remote store reports\<close>

text \<open>The index of a response is not below \<open>t\<close> (a failed request reports none).\<close>

fun index_not_below :: "ClockValue \<Rightarrow> get_outcome \<Rightarrow> bool" where
  "index_not_below t (GetError err) = True"
| "index_not_below t (GetResponse idx d) = (t \<le> idx)"

text \<open>Every response that an operation processes reports an index not below the clock.\<close>

fun index_monotone :: "ConsulKVCache \<Rightarrow> operation \<Rightarrow> bool" where
  "index_monotone c (OpRepopulate listing) = index_not_below (clock c) listing"
| "index_monotone c (OpBackground watch listing) =
     (index_not_below (clock c) watch \<and> index_not_below (clock c) listing)"
| "index_monotone c (OpSet key val put) = True"
| "index_monotone c (OpDelete key del put) = True"

text \<open>The index of a response is not below the modify index of any of its values.\<close>

fun versions_covered :: "get_outcome \<Rightarrow> bool" where
  "versions_covered (GetError err) = True"
| "versions_covered (GetResponse idx (DecodeError err)) = True"
| "versions_covered (GetResponse idx (Decoded vals)) = list_all (\<lambda>val. ModifyIndex val \<le> idx) vals"

text \<open>
  What the clock invariant needs of an operation: each response covers its own values,
  and a watch response, which is merged into the standing table, reports an index not
  below the clock.
\<close>

fun well_indexed :: "ConsulKVCache \<Rightarrow> operation \<Rightarrow> bool" where
  "well_indexed c (OpRepopulate listing) = versions_covered listing"
| "well_indexed c (OpBackground watch listing) =
     (versions_covered watch \<and> index_not_below (clock c) watch \<and> versions_covered listing)"
| "well_indexed c (OpSet key val put) = True"
| "well_indexed c (OpDelete key del put) = True"

fun well_indexed_run :: "ConsulKVCache \<Rightarrow> operation list \<Rightarrow> bool" where
  "well_indexed_run c [] = True"
| "well_indexed_run c (op # ops) =
     (well_indexed c op \<and>
      (case apply_op c op of None \<Rightarrow> True | Some c' \<Rightarrow> well_indexed_run c' ops))"

subsection \<open>The clock invariant\<close>

text \<open>No stored entry carries a version above the clock.\<close>

definition clock_bounds :: "ConsulKVCache \<Rightarrow> bool" where
  "clock_bounds c = (\<forall>k e. cache c k = Some e \<longrightarrow> Clock e \<le> clock c)"

section \<open>The loops\<close>

subsection \<open>The table that Repopulate fills\<close>

lemma Repopulate_fill_other:
  "k \<notin> consulValue.Key ` set vals \<Longrightarrow> Repopulate_fill vals tbl k = tbl k"
  by (induction vals arbitrary: tbl) auto

lemma Repopulate_fill_dom:
  "dom (Repopulate_fill vals tbl) = dom tbl \<union> consulValue.Key ` set vals"
  by (induction vals arbitrary: tbl) auto

lemma Repopulate_fill_from:
  "Repopulate_fill vals tbl k = Some e \<Longrightarrow>
   tbl k = Some e \<or> (\<exists>val\<in>set vals. consulValue.Key val = k \<and> e = listed_entry val)"
proof (induction vals arbitrary: tbl)
  case Nil
  then show ?case by simp
next
  case (Cons a vals)
  from Cons.IH [OF Cons.prems [simplified]] show ?case
    by (auto split: if_splits)
qed

lemma Repopulate_fill_distinct:
  "distinct (map consulValue.Key vals) \<Longrightarrow> val \<in> set vals \<Longrightarrow>
   Repopulate_fill vals tbl (consulValue.Key val) = Some (listed_entry val)"
proof (induction vals arbitrary: tbl)
  case Nil
  then show ?case by simp
next
  case (Cons a vals)
  show ?case
  proof (cases "val = a")
    case True
    with Cons.prems have "consulValue.Key a \<notin> consulValue.Key ` set vals" by simp
    then show ?thesis using True by (simp add: Repopulate_fill_other)
  next
    case False
    with Cons show ?thesis by simp
  qed
qed

subsection \<open>The table after a merge\<close>

lemma merge_other:
  "merge plen vals tbl = Some tbl' \<Longrightarrow> k \<notin> consulValue.Key ` set vals \<Longrightarrow> tbl' k = tbl k"
  by (induction vals arbitrary: tbl) (auto split: if_splits)

lemma merge_defined:
  "list_all (\<lambda>val. plen \<le> length (consulValue.Key val)) vals \<Longrightarrow> \<exists>tbl'. merge plen vals tbl = Some tbl'"
  by (induction vals arbitrary: tbl) auto

lemma merge_from:
  "merge plen vals tbl = Some tbl' \<Longrightarrow> tbl' k = Some e \<Longrightarrow>
   tbl k = Some e \<or> (\<exists>val\<in>set vals. consulValue.Key val = k \<and> e = merged_entry plen val)"
proof (induction vals arbitrary: tbl)
  case Nil
  then show ?case by simp
next
  case (Cons a vals)
  from Cons.prems(1) have m: "merge plen vals (tbl(consulValue.Key a \<mapsto> merged_entry plen a)) = Some tbl'"
    by (simp split: if_splits)
  from Cons.IH [OF m Cons.prems(2)] show ?case
    by (auto split: if_splits)
qed

lemma merge_holds:
  "merge plen vals tbl = Some tbl' \<Longrightarrow> k \<in> consulValue.Key ` set vals \<Longrightarrow>
   \<exists>val'\<in>set vals. consulValue.Key val' = k \<and> tbl' k = Some (merged_entry plen val')"
proof (induction vals arbitrary: tbl)
  case Nil
  then show ?case by simp
next
  case (Cons a vals)
  from Cons.prems(1) have m: "merge plen vals (tbl(consulValue.Key a \<mapsto> merged_entry plen a)) = Some tbl'"
    by (simp split: if_splits)
  show ?case
  proof (cases "k \<in> consulValue.Key ` set vals")
    case True
    from Cons.IH [OF m True] show ?thesis by auto
  next
    case False
    with Cons.prems(2) have "consulValue.Key a = k" by auto
    moreover from merge_other [OF m False]
    have "tbl' k = (tbl(consulValue.Key a \<mapsto> merged_entry plen a)) k" .
    ultimately show ?thesis by simp
  qed
qed

lemma merge_distinct:
  "merge plen vals tbl = Some tbl' \<Longrightarrow> distinct (map consulValue.Key vals) \<Longrightarrow> val \<in> set vals \<Longrightarrow>
   tbl' (consulValue.Key val) = Some (merged_entry plen val)"
proof (induction vals arbitrary: tbl)
  case Nil
  then show ?case by simp
next
  case (Cons a vals)
  from Cons.prems(1) have m: "merge plen vals (tbl(consulValue.Key a \<mapsto> merged_entry plen a)) = Some tbl'"
    by (simp split: if_splits)
  show ?case
  proof (cases "val = a")
    case True
    with Cons.prems(2) have "consulValue.Key val \<notin> consulValue.Key ` set vals" by simp
    from merge_other [OF m this] True show ?thesis by simp
  next
    case False
    with Cons.prems m Cons.IH show ?thesis by simp
  qed
qed

subsection \<open>The check for the sentinel, and the scan of GetPrefix\<close>

lemma fullSync_iff:
  "fullSync vals \<longleftrightarrow> (\<exists>val\<in>set vals. Split_file (consulValue.Key val) = ''__sync'')"
  by (induction vals) auto

lemma GetPrefix_loop_eq:
  "GetPrefix_loop p tbl ks (vals, mx) =
     (vals @ map (\<lambda>k. the (tbl k)) (filter (\<lambda>k. tbl k \<noteq> None \<and> HasPrefix k p) ks),
      fold max (map (\<lambda>k. Clock (the (tbl k))) (filter (\<lambda>k. tbl k \<noteq> None \<and> HasPrefix k p) ks)) mx)"
proof (induction ks arbitrary: vals mx)
  case Nil
  then show ?case by simp
next
  case (Cons k ks)
  show ?case
  proof (cases "tbl k")
    case None
    then show ?thesis by (simp add: Cons.IH)
  next
    case (Some v)
    then show ?thesis by (simp add: Cons.IH max_def)
  qed
qed

lemma fold_max_Max:
  fixes m :: int
  shows "fold max xs m = Max (insert m (set xs))"
proof (induction xs arbitrary: m)
  case Nil
  then show ?case by simp
next
  case (Cons x xs)
  have "Max (insert (max x m) (set xs)) = Max (insert m (insert x (set xs)))"
  proof (cases "set xs = {}")
    case True
    then show ?thesis by (simp add: max.commute)
  next
    case False
    then show ?thesis by (simp add: max.commute max.left_commute max.assoc)
  qed
  then show ?case by (simp add: Cons.IH)
qed

lemma HasPrefix_length: "HasPrefix s p \<Longrightarrow> length p \<le> length s"
  by (simp add: HasPrefix_def)

subsection \<open>The clock invariant, step by step\<close>

lemma Repopulate_bounds:
  assumes "clock_bounds c" "versions_covered listing"
  shows "clock_bounds (fst (Repopulate c listing))"
proof (cases "(c, listing)" rule: Repopulate.cases)
  case (3 c0 idx vals)
  show ?thesis
  proof (cases "vals = []")
    case True
    with 3 assms show ?thesis by simp
  next
    case False
    { fix k e assume "Repopulate_fill vals Map.empty k = Some e"
      from Repopulate_fill_from [OF this] obtain val where "val \<in> set vals" "e = listed_entry val" by auto
      with assms(2) 3 have "Clock e \<le> idx" by (auto simp: list_all_iff listed_entry_def) }
    with 3 False show ?thesis by (auto simp: clock_bounds_def)
  qed
qed (use assms in auto)

lemma turn_bounds:
  assumes "clock_bounds c" "versions_covered watch" "index_not_below (clock c) watch" "versions_covered listing"
    and "BackgroundUpdate_turn c idx watch listing = Return c' \<or> BackgroundUpdate_turn c idx watch listing = Continue c' i"
  shows "clock_bounds c'"
proof (cases "(c, idx, watch, listing)" rule: BackgroundUpdate_turn.cases)
  case (3 c0 idx0 idx' vals listing0)
  show ?thesis
  proof (cases "exit c \<or> vals = [] \<or> fullSync vals")
    case True
    with 3 assms(5) Repopulate_bounds [OF assms(1) assms(4)] assms(1) show ?thesis
      by (auto split: if_splits)
  next
    case False
    with 3 assms(5) obtain tbl where m: "merge (length (prefix c)) vals (cache c) = Some tbl"
      and c': "c' = c\<lparr>clock := idx', cache := tbl\<rparr>"
      by (auto split: option.splits)
    { fix k e assume "tbl k = Some e"
      from merge_from [OF m this] have "Clock e \<le> idx'"
      proof
        assume "cache c k = Some e"
        with assms(1) have "Clock e \<le> clock c" by (auto simp: clock_bounds_def)
        with assms(3) 3 show ?thesis by simp
      next
        assume "\<exists>val\<in>set vals. consulValue.Key val = k \<and> e = merged_entry (length (prefix c)) val"
        with assms(2) 3 show ?thesis by (auto simp: list_all_iff merged_entry_def)
      qed }
    with c' show ?thesis by (auto simp: clock_bounds_def)
  qed
qed (use assms in \<open>auto split: if_splits\<close>)

lemma apply_op_bounds:
  assumes "clock_bounds c" "well_indexed c op" "apply_op c op = Some c'"
  shows "clock_bounds c'"
proof (cases op)
  case (OpRepopulate listing)
  with assms Repopulate_bounds [of c listing] show ?thesis by auto
next
  case (OpBackground watch listing)
  with assms have "BackgroundUpdate_turn c 0 watch listing = Return c' \<or> (\<exists>i. BackgroundUpdate_turn c 0 watch listing = Continue c' i)"
    by (auto split: turn.splits)
  with OpBackground assms turn_bounds [of c watch listing 0 c'] show ?thesis by auto
next
  case (OpSet key val put)
  with assms show ?thesis by (auto simp: Set_def Let_def clock_bounds_def split: if_splits)
next
  case (OpDelete key del put)
  with assms show ?thesis by (auto simp: Delete_def Let_def clock_bounds_def split: if_splits)
qed

lemma run_bounds:
  "clock_bounds c \<Longrightarrow> well_indexed_run c ops \<Longrightarrow> run c ops = Some c' \<Longrightarrow> clock_bounds c'"
proof (induction ops arbitrary: c)
  case Nil
  then show ?case by simp
next
  case (Cons op ops)
  from Cons.prems(3) obtain c1 where a: "apply_op c op = Some c1" and r: "run c1 ops = Some c'"
    by (auto split: option.splits)
  from Cons.prems(2) a have w: "well_indexed c op" "well_indexed_run c1 ops" by auto
  from apply_op_bounds [OF Cons.prems(1) w(1) a] have "clock_bounds c1" .
  from Cons.IH [OF this w(2) r] show ?case .
qed

section \<open>Set\<close>

text \<open>
  C1, as the code has it. \<^verbatim>\<open>Set\<close> writes the entry into the table first and calls the
  remote store second, and nothing undoes the write. So when the remote put fails,
  \<^verbatim>\<open>Set\<close> returns that error, and the table holds the entry for the key all the same:
  the given key (relative to the prefix), the given bytes and the current clock. No
  other entry changes, and neither do the clock, the prefix and the flag.
\<close>

theorem Set_failure_keeps_local_write:
  assumes "setConsulKV (prefix c @ k) v put = Some err"
  shows "snd (Set c k v put) = Some err
    \<and> cache (fst (Set c k v put)) (prefix c @ k) = Some \<lparr>Key = k, Value = v, Clock = clock c\<rparr>
    \<and> (\<forall>k'. k' \<noteq> prefix c @ k \<longrightarrow> cache (fst (Set c k v put)) k' = cache c k')
    \<and> clock (fst (Set c k v put)) = clock c
    \<and> prefix (fst (Set c k v put)) = prefix c
    \<and> exit (fst (Set c k v put)) = exit c"
  using assms by (simp add: Set_def Let_def)

theorem Set_failure_keeps_local_write_witness:
  "setConsulKV (prefix (NewConsulKVCache ''foo'') @ ''bar'') [0x68, 0x69] (PutDoError (Error ''connection refused''))
     = Some (Error ''connection refused'')
   \<and> snd (Set (NewConsulKVCache ''foo'') ''bar'' [0x68, 0x69] (PutDoError (Error ''connection refused'')))
     = Some (Error ''connection refused'')
   \<and> cache (fst (Set (NewConsulKVCache ''foo'') ''bar'' [0x68, 0x69] (PutDoError (Error ''connection refused''))))
        ''foo/bar'' = Some \<lparr>Key = ''bar'', Value = [0x68, 0x69], Clock = 0\<rparr>
   \<and> clock (fst (Set (NewConsulKVCache ''foo'') ''bar'' [0x68, 0x69] (PutDoError (Error ''connection refused'')))) = 0"
  using Set_failure_keeps_local_write [of "NewConsulKVCache ''foo''" "''bar''" "[0x68, 0x69]" "PutDoError (Error ''connection refused'')" "Error ''connection refused''"]
  by (simp add: NewConsulKVCache_def)

text \<open>
  C1 as stated fails: on a fresh cache for \<^verbatim>\<open>foo\<close>, a \<^verbatim>\<open>Set\<close> of \<^verbatim>\<open>bar\<close> whose request
  fails returns the error, and the key \<^verbatim>\<open>foo/bar\<close>, absent before, is in the table after.
\<close>

theorem Set_failure_unchanged_counterexample:
  "snd (Set (NewConsulKVCache ''foo'') ''bar'' [0x68, 0x69] (PutDoError (Error ''connection refused'')))
     = Some (Error ''connection refused'')
   \<and> cache (NewConsulKVCache ''foo'') ''foo/bar'' = None
   \<and> cache (fst (Set (NewConsulKVCache ''foo'') ''bar'' [0x68, 0x69] (PutDoError (Error ''connection refused''))))
        ''foo/bar'' = Some \<lparr>Key = ''bar'', Value = [0x68, 0x69], Clock = 0\<rparr>"
  by (simp add: Set_def NewConsulKVCache_def)

section \<open>Delete\<close>

text \<open>
  C2, as the code has it. \<^verbatim>\<open>Delete\<close> removes the entry of the key from the table before
  any remote call, and the removal stands whatever the remote calls return. No other
  entry changes, and neither do the clock, the prefix and the flag. When the remote
  delete succeeds, \<^verbatim>\<open>Delete\<close> returns what the put of the sentinel key returns.
\<close>

theorem Delete_removes_then_puts_sentinel:
  "cache (fst (Delete c k del put)) (prefix c @ k) = None
   \<and> (\<forall>k'. k' \<noteq> prefix c @ k \<longrightarrow> cache (fst (Delete c k del put)) k' = cache c k')
   \<and> clock (fst (Delete c k del put)) = clock c
   \<and> prefix (fst (Delete c k del put)) = prefix c
   \<and> exit (fst (Delete c k del put)) = exit c
   \<and> (delConsulKV (prefix c @ k) False del = None \<longrightarrow>
        snd (Delete c k del put) = setConsulKV (prefix c @ ''__sync'') [0x31] put)"
  by (simp add: Delete_def Let_def)

theorem Delete_removes_then_puts_sentinel_witness:
  "cache (fst (Delete \<lparr>prefix = ''foo/'', cache = [''foo/bar'' \<mapsto> \<lparr>Key = ''bar'', Value = [0x68], Clock = 3\<rparr>, ''foo/baz'' \<mapsto> \<lparr>Key = ''baz'', Value = [0x68], Clock = 4\<rparr>], clock = 7, exit = False\<rparr>
      ''baz'' DeleteResponse (PutDoError (Error ''put failed'')))) ''foo/baz'' = None
   \<and> cache (fst (Delete \<lparr>prefix = ''foo/'', cache = [''foo/bar'' \<mapsto> \<lparr>Key = ''bar'', Value = [0x68], Clock = 3\<rparr>, ''foo/baz'' \<mapsto> \<lparr>Key = ''baz'', Value = [0x68], Clock = 4\<rparr>], clock = 7, exit = False\<rparr>
      ''baz'' DeleteResponse (PutDoError (Error ''put failed'')))) ''foo/bar'' = Some \<lparr>Key = ''bar'', Value = [0x68], Clock = 3\<rparr>
   \<and> clock (fst (Delete \<lparr>prefix = ''foo/'', cache = [''foo/bar'' \<mapsto> \<lparr>Key = ''bar'', Value = [0x68], Clock = 3\<rparr>, ''foo/baz'' \<mapsto> \<lparr>Key = ''baz'', Value = [0x68], Clock = 4\<rparr>], clock = 7, exit = False\<rparr>
      ''baz'' DeleteResponse (PutDoError (Error ''put failed'')))) = 7
   \<and> delConsulKV ''foo/baz'' False DeleteResponse = None
   \<and> snd (Delete \<lparr>prefix = ''foo/'', cache = [''foo/bar'' \<mapsto> \<lparr>Key = ''bar'', Value = [0x68], Clock = 3\<rparr>, ''foo/baz'' \<mapsto> \<lparr>Key = ''baz'', Value = [0x68], Clock = 4\<rparr>], clock = 7, exit = False\<rparr>
      ''baz'' DeleteResponse (PutDoError (Error ''put failed''))) = Some (Error ''put failed'')"
  using Delete_removes_then_puts_sentinel [of "\<lparr>prefix = ''foo/'', cache = [''foo/bar'' \<mapsto> \<lparr>Key = ''bar'', Value = [0x68], Clock = 3\<rparr>, ''foo/baz'' \<mapsto> \<lparr>Key = ''baz'', Value = [0x68], Clock = 4\<rparr>], clock = 7, exit = False\<rparr>"
      "''baz''" DeleteResponse "PutDoError (Error ''put failed'')"]
  by simp

text \<open>
  C2 as stated fails: with the entry \<^verbatim>\<open>foo/baz\<close> stored, a \<^verbatim>\<open>Delete\<close> of \<^verbatim>\<open>baz\<close> whose
  remote delete fails and whose put of the sentinel fails too returns the error of the
  put, not the earlier one of the delete, and the entry is gone from the table.
\<close>

theorem Delete_first_error_counterexample:
  "snd (Delete \<lparr>prefix = ''foo/'', cache = [''foo/baz'' \<mapsto> \<lparr>Key = ''baz'', Value = [0x68], Clock = 4\<rparr>], clock = 7, exit = False\<rparr>
      ''baz'' (DeleteDoError (Error ''delete failed'')) (PutDoError (Error ''put failed'')))
     = Some (Error ''put failed'')
   \<and> cache (fst (Delete \<lparr>prefix = ''foo/'', cache = [''foo/baz'' \<mapsto> \<lparr>Key = ''baz'', Value = [0x68], Clock = 4\<rparr>], clock = 7, exit = False\<rparr>
      ''baz'' (DeleteDoError (Error ''delete failed'')) (PutDoError (Error ''put failed'')))) ''foo/baz'' = None"
  by (simp add: Delete_def)

section \<open>The clock\<close>

text \<open>
  C3, as the code has it. \<^verbatim>\<open>Set\<close> and \<^verbatim>\<open>Delete\<close> leave the clock as it is;
  \<^verbatim>\<open>Repopulate\<close> and the merge step of the background loop assign the index of the
  response to the clock without comparing the two. So the clock after an operation is
  not below the clock before it whenever every response that the operation processes
  reports an index that is not below the clock before it.
\<close>

theorem clock_monotone_when_index_monotone:
  assumes "index_monotone c op" and "apply_op c op = Some c'"
  shows "clock c \<le> clock c'"
proof (cases op)
  case (OpRepopulate listing)
  with assms show ?thesis
    by (cases "(c, listing)" rule: Repopulate.cases) (auto split: if_splits)
next
  case (OpBackground watch listing)
  have r: "clock c \<le> clock (fst (Repopulate c listing))" if "index_not_below (clock c) listing"
    using that by (cases "(c, listing)" rule: Repopulate.cases) (auto split: if_splits)
  from OpBackground assms r show ?thesis
    by (cases "(c, 0::int, watch, listing)" rule: BackgroundUpdate_turn.cases)
       (auto split: if_splits option.splits)
next
  case (OpSet key val put)
  with assms show ?thesis by (auto simp: Set_def Let_def)
next
  case (OpDelete key del put)
  with assms show ?thesis by (auto simp: Delete_def Let_def)
qed

theorem clock_monotone_when_index_monotone_witness:
  "index_monotone \<lparr>prefix = ''foo/'', cache = Map.empty, clock = 10, exit = False\<rparr>
      (OpRepopulate (GetResponse 12 (Decoded [\<lparr>CreateIndex = 12, ModifyIndex = 12, Key = ''foo/bar'', Flags = 0, Value = [0x68]\<rparr>])))
   \<and> apply_op \<lparr>prefix = ''foo/'', cache = Map.empty, clock = 10, exit = False\<rparr>
      (OpRepopulate (GetResponse 12 (Decoded [\<lparr>CreateIndex = 12, ModifyIndex = 12, Key = ''foo/bar'', Flags = 0, Value = [0x68]\<rparr>])))
     = Some \<lparr>prefix = ''foo/'', cache = [''foo/bar'' \<mapsto> \<lparr>Key = ''foo/bar'', Value = [0x68], Clock = 12\<rparr>], clock = 12, exit = False\<rparr>
   \<and> clock \<lparr>prefix = ''foo/'', cache = Map.empty, clock = 10, exit = False\<rparr>
      \<le> clock \<lparr>prefix = ''foo/'', cache = [''foo/bar'' \<mapsto> \<lparr>Key = ''foo/bar'', Value = [0x68], Clock = 12\<rparr>], clock = 12, exit = False\<rparr>"
proof -
  have m: "index_monotone \<lparr>prefix = ''foo/'', cache = Map.empty, clock = 10, exit = False\<rparr>
      (OpRepopulate (GetResponse 12 (Decoded [\<lparr>CreateIndex = 12, ModifyIndex = 12, Key = ''foo/bar'', Flags = 0, Value = [0x68]\<rparr>])))"
    by simp
  have a: "apply_op \<lparr>prefix = ''foo/'', cache = Map.empty, clock = 10, exit = False\<rparr>
      (OpRepopulate (GetResponse 12 (Decoded [\<lparr>CreateIndex = 12, ModifyIndex = 12, Key = ''foo/bar'', Flags = 0, Value = [0x68]\<rparr>])))
     = Some \<lparr>prefix = ''foo/'', cache = [''foo/bar'' \<mapsto> \<lparr>Key = ''foo/bar'', Value = [0x68], Clock = 12\<rparr>], clock = 12, exit = False\<rparr>"
    by (simp add: listed_entry_def)
  from m a clock_monotone_when_index_monotone [OF m a] show ?thesis by (intro conjI)
qed

text \<open>
  C3 as stated fails: a listing at index 10 sets the clock to 10; a watch response that
  reports index 8 (one answered before the listing and merged after it, or one from a
  store whose index went back) is merged next and sets the clock to 8.
\<close>

theorem clock_decreases_counterexample:
  "run (NewConsulKVCache ''foo'')
     [OpRepopulate (GetResponse 10 (Decoded [\<lparr>CreateIndex = 10, ModifyIndex = 10, Key = ''foo/bar'', Flags = 0, Value = [0x68]\<rparr>]))]
     = Some \<lparr>prefix = ''foo/'', cache = [''foo/bar'' \<mapsto> \<lparr>Key = ''foo/bar'', Value = [0x68], Clock = 10\<rparr>], clock = 10, exit = False\<rparr>
   \<and> apply_op \<lparr>prefix = ''foo/'', cache = [''foo/bar'' \<mapsto> \<lparr>Key = ''foo/bar'', Value = [0x68], Clock = 10\<rparr>], clock = 10, exit = False\<rparr>
       (OpBackground (GetResponse 8 (Decoded [\<lparr>CreateIndex = 8, ModifyIndex = 8, Key = ''foo/baz'', Flags = 0, Value = [0x69]\<rparr>])) (GetError EOF))
     = Some \<lparr>prefix = ''foo/'',
         cache = [''foo/bar'' \<mapsto> \<lparr>Key = ''foo/bar'', Value = [0x68], Clock = 10\<rparr>,
                  ''foo/baz'' \<mapsto> \<lparr>Key = ''baz'', Value = [0x69], Clock = 8\<rparr>], clock = 8, exit = False\<rparr>
   \<and> clock \<lparr>prefix = ''foo/'',
         cache = [''foo/bar'' \<mapsto> \<lparr>Key = ''foo/bar'', Value = [0x68], Clock = 10\<rparr>,
                  ''foo/baz'' \<mapsto> \<lparr>Key = ''baz'', Value = [0x69], Clock = 8\<rparr>], clock = 8, exit = False\<rparr>
       < clock \<lparr>prefix = ''foo/'', cache = [''foo/bar'' \<mapsto> \<lparr>Key = ''foo/bar'', Value = [0x68], Clock = 10\<rparr>], clock = 10, exit = False\<rparr>"
  by (simp add: NewConsulKVCache_def listed_entry_def merged_entry_def Split_file_def)

text \<open>
  C4, as the code has it. Start from the empty cache and run any sequence of operations
  in which every response reports an index that is not below the modify index of any of
  its values, and every watch response reports an index that is not below the clock at
  the moment it is processed. Then in the state reached the clock is not below the
  version of any stored entry.
\<close>

theorem clock_bounds_versions_when_well_indexed:
  assumes "well_indexed_run (NewConsulKVCache p) ops"
    and "run (NewConsulKVCache p) ops = Some c"
    and "cache c k = Some e"
  shows "Clock e \<le> clock c"
proof -
  have "clock_bounds (NewConsulKVCache p)" by (simp add: clock_bounds_def NewConsulKVCache_def)
  from run_bounds [OF this assms(1) assms(2)] assms(3) show ?thesis
    by (auto simp: clock_bounds_def)
qed

theorem clock_bounds_versions_when_well_indexed_witness:
  "well_indexed_run (NewConsulKVCache ''foo'')
     [OpRepopulate (GetResponse 10 (Decoded [\<lparr>CreateIndex = 10, ModifyIndex = 10, Key = ''foo/bar'', Flags = 0, Value = [0x68]\<rparr>])),
      OpBackground (GetResponse 12 (Decoded [\<lparr>CreateIndex = 12, ModifyIndex = 12, Key = ''foo/baz'', Flags = 0, Value = [0x69]\<rparr>])) (GetError EOF),
      OpSet ''qux'' [0x6A] (PutResponse bTrue)]
   \<and> run (NewConsulKVCache ''foo'')
     [OpRepopulate (GetResponse 10 (Decoded [\<lparr>CreateIndex = 10, ModifyIndex = 10, Key = ''foo/bar'', Flags = 0, Value = [0x68]\<rparr>])),
      OpBackground (GetResponse 12 (Decoded [\<lparr>CreateIndex = 12, ModifyIndex = 12, Key = ''foo/baz'', Flags = 0, Value = [0x69]\<rparr>])) (GetError EOF),
      OpSet ''qux'' [0x6A] (PutResponse bTrue)]
     = Some \<lparr>prefix = ''foo/'',
         cache = [''foo/bar'' \<mapsto> \<lparr>Key = ''foo/bar'', Value = [0x68], Clock = 10\<rparr>,
                  ''foo/baz'' \<mapsto> \<lparr>Key = ''baz'', Value = [0x69], Clock = 12\<rparr>,
                  ''foo/qux'' \<mapsto> \<lparr>Key = ''qux'', Value = [0x6A], Clock = 12\<rparr>], clock = 12, exit = False\<rparr>
   \<and> Clock \<lparr>Key = ''foo/bar'', Value = [0x68], Clock = 10\<rparr>
        \<le> clock \<lparr>prefix = ''foo/'',
         cache = [''foo/bar'' \<mapsto> \<lparr>Key = ''foo/bar'', Value = [0x68], Clock = 10\<rparr>,
                  ''foo/baz'' \<mapsto> \<lparr>Key = ''baz'', Value = [0x69], Clock = 12\<rparr>,
                  ''foo/qux'' \<mapsto> \<lparr>Key = ''qux'', Value = [0x6A], Clock = 12\<rparr>], clock = 12, exit = False\<rparr>"
proof -
  let ?ops = "[OpRepopulate (GetResponse 10 (Decoded [\<lparr>CreateIndex = 10, ModifyIndex = 10, Key = ''foo/bar'', Flags = 0, Value = [0x68]\<rparr>])),
      OpBackground (GetResponse 12 (Decoded [\<lparr>CreateIndex = 12, ModifyIndex = 12, Key = ''foo/baz'', Flags = 0, Value = [0x69]\<rparr>])) (GetError EOF),
      OpSet ''qux'' [0x6A] (PutResponse bTrue)]"
  let ?c = "\<lparr>prefix = ''foo/'',
         cache = [''foo/bar'' \<mapsto> \<lparr>Key = ''foo/bar'', Value = [0x68], Clock = 10\<rparr>,
                  ''foo/baz'' \<mapsto> \<lparr>Key = ''baz'', Value = [0x69], Clock = 12\<rparr>,
                  ''foo/qux'' \<mapsto> \<lparr>Key = ''qux'', Value = [0x6A], Clock = 12\<rparr>], clock = 12, exit = False\<rparr>"
  have w: "well_indexed_run (NewConsulKVCache ''foo'') ?ops"
    by (simp add: NewConsulKVCache_def listed_entry_def merged_entry_def Split_file_def Set_def)
  have r: "run (NewConsulKVCache ''foo'') ?ops = Some ?c"
    by (simp add: NewConsulKVCache_def listed_entry_def merged_entry_def Split_file_def Set_def)
  have e: "cache ?c ''foo/bar'' = Some \<lparr>Key = ''foo/bar'', Value = [0x68], Clock = 10\<rparr>"
    by simp
  from w r clock_bounds_versions_when_well_indexed [OF w r e] show ?thesis by (intro conjI)
qed

text \<open>
  C4 as stated fails: after a listing at index 10 with \<^verbatim>\<open>foo/bar\<close> at version 10 and the
  merge of a watch response at index 8, the entry of \<^verbatim>\<open>foo/bar\<close> still has version 10
  and the clock is 8.
\<close>

theorem clock_below_version_counterexample:
  "run (NewConsulKVCache ''foo'')
     [OpRepopulate (GetResponse 10 (Decoded [\<lparr>CreateIndex = 10, ModifyIndex = 10, Key = ''foo/bar'', Flags = 0, Value = [0x68]\<rparr>])),
      OpBackground (GetResponse 8 (Decoded [\<lparr>CreateIndex = 8, ModifyIndex = 8, Key = ''foo/baz'', Flags = 0, Value = [0x69]\<rparr>])) (GetError EOF)]
     = Some \<lparr>prefix = ''foo/'',
         cache = [''foo/bar'' \<mapsto> \<lparr>Key = ''foo/bar'', Value = [0x68], Clock = 10\<rparr>,
                  ''foo/baz'' \<mapsto> \<lparr>Key = ''baz'', Value = [0x69], Clock = 8\<rparr>], clock = 8, exit = False\<rparr>
   \<and> \<not> Clock \<lparr>Key = ''foo/bar'', Value = [0x68], Clock = 10\<rparr>
        \<le> clock \<lparr>prefix = ''foo/'',
         cache = [''foo/bar'' \<mapsto> \<lparr>Key = ''foo/bar'', Value = [0x68], Clock = 10\<rparr>,
                  ''foo/baz'' \<mapsto> \<lparr>Key = ''baz'', Value = [0x69], Clock = 8\<rparr>], clock = 8, exit = False\<rparr>"
  by (simp add: NewConsulKVCache_def listed_entry_def merged_entry_def Split_file_def)

section \<open>The key field of a stored entry\<close>

text \<open>
  C5 does not hold of \<^verbatim>\<open>Repopulate\<close>. For the prefix \<^verbatim>\<open>foo\<close> and the listed key
  \<^verbatim>\<open>foo/bar\<close>, \<^verbatim>\<open>Repopulate\<close> stores an entry whose key field is \<^verbatim>\<open>foo/bar\<close>, while
  the merge step of the background loop, given the same value, and \<^verbatim>\<open>Set\<close>, given the
  key \<^verbatim>\<open>bar\<close>, store an entry whose key field is \<^verbatim>\<open>bar\<close>.
\<close>

theorem Repopulate_keeps_absolute_key:
  "cache (fst (Repopulate (NewConsulKVCache ''foo'')
      (GetResponse 5 (Decoded [\<lparr>CreateIndex = 5, ModifyIndex = 5, Key = ''foo/bar'', Flags = 0, Value = [0x68]\<rparr>]))))
     ''foo/bar'' = Some \<lparr>Key = ''foo/bar'', Value = [0x68], Clock = 5\<rparr>
   \<and> BackgroundUpdate_turn (NewConsulKVCache ''foo'') 0
      (GetResponse 5 (Decoded [\<lparr>CreateIndex = 5, ModifyIndex = 5, Key = ''foo/bar'', Flags = 0, Value = [0x68]\<rparr>]))
      (GetError EOF)
     = Continue \<lparr>prefix = ''foo/'', cache = [''foo/bar'' \<mapsto> \<lparr>Key = ''bar'', Value = [0x68], Clock = 5\<rparr>],
                 clock = 5, exit = False\<rparr> 5
   \<and> cache (fst (Set (NewConsulKVCache ''foo'') ''bar'' [0x68] (PutResponse bTrue))) ''foo/bar''
     = Some \<lparr>Key = ''bar'', Value = [0x68], Clock = 0\<rparr>"
  by (simp add: NewConsulKVCache_def listed_entry_def merged_entry_def Split_file_def Set_def)

section \<open>The background loop\<close>

text \<open>
  C6. Take a turn of the loop in which the flag is not set and the watch call returns a
  change set that is not empty, its keys under the prefix of the cache. If the part
  after the last slash of some changed key is \<^verbatim>\<open>__sync\<close>, the turn is a
  \<^verbatim>\<open>Repopulate\<close> and nothing else: the state after it is the state after
  \<^verbatim>\<open>Repopulate\<close>, whatever the change set holds. Otherwise every value of the change
  set is written to the table under its key (where a key is listed twice the later
  value stays), the keys outside the change set keep their entries, and the clock is
  the index of the response.
\<close>

theorem BackgroundUpdate_sentinel_or_upsert:
  assumes "\<not> exit c" and "vals \<noteq> []"
    and "list_all (\<lambda>val. HasPrefix (consulValue.Key val) (prefix c)) vals"
  shows "if (\<exists>val\<in>set vals. Split_file (consulValue.Key val) = ''__sync'')
    then BackgroundUpdate_turn c idx (GetResponse idx' (Decoded vals)) listing
           = Continue (fst (Repopulate c listing)) idx'
    else (\<exists>tbl. BackgroundUpdate_turn c idx (GetResponse idx' (Decoded vals)) listing
                  = Continue (c\<lparr>clock := idx', cache := tbl\<rparr>) idx'
            \<and> (\<forall>val\<in>set vals. \<exists>val'\<in>set vals. consulValue.Key val' = consulValue.Key val
                   \<and> tbl (consulValue.Key val) = Some (merged_entry (length (prefix c)) val'))
            \<and> (distinct (map consulValue.Key vals) \<longrightarrow>
                 (\<forall>val\<in>set vals. tbl (consulValue.Key val) = Some (merged_entry (length (prefix c)) val)))
            \<and> (\<forall>k. k \<notin> consulValue.Key ` set vals \<longrightarrow> tbl k = cache c k))"
proof (cases "fullSync vals")
  case True
  with assms show ?thesis by (simp add: fullSync_iff [symmetric])
next
  case False
  from assms(3) have "list_all (\<lambda>val. length (prefix c) \<le> length (consulValue.Key val)) vals"
    by (auto simp: list_all_iff dest: HasPrefix_length)
  from merge_defined [OF this] obtain tbl where m: "merge (length (prefix c)) vals (cache c) = Some tbl"
    by blast
  have t: "BackgroundUpdate_turn c idx (GetResponse idx' (Decoded vals)) listing
                  = Continue (c\<lparr>clock := idx', cache := tbl\<rparr>) idx'"
    using assms False m by simp
  have a: "\<forall>val\<in>set vals. \<exists>val'\<in>set vals. consulValue.Key val' = consulValue.Key val
                   \<and> tbl (consulValue.Key val) = Some (merged_entry (length (prefix c)) val')"
    using merge_holds [OF m] by blast
  have b: "distinct (map consulValue.Key vals) \<longrightarrow>
                 (\<forall>val\<in>set vals. tbl (consulValue.Key val) = Some (merged_entry (length (prefix c)) val))"
    using merge_distinct [OF m] by blast
  have d: "\<forall>k. k \<notin> consulValue.Key ` set vals \<longrightarrow> tbl k = cache c k"
    using merge_other [OF m] by blast
  from False t a b d show ?thesis
    unfolding fullSync_iff [symmetric] by (simp only: if_False) blast
qed

theorem BackgroundUpdate_sentinel_or_upsert_witness:
  "\<not> exit \<lparr>prefix = ''foo/'', cache = [''foo/bar'' \<mapsto> \<lparr>Key = ''bar'', Value = [0x68], Clock = 3\<rparr>], clock = 3, exit = False\<rparr>
   \<and> list_all (\<lambda>val. HasPrefix (consulValue.Key val) ''foo/'')
        [\<lparr>CreateIndex = 9, ModifyIndex = 9, Key = ''foo/baz'', Flags = 0, Value = [0x69]\<rparr>,
         \<lparr>CreateIndex = 4, ModifyIndex = 9, Key = ''foo/__sync'', Flags = 0, Value = [0x31]\<rparr>]
   \<and> BackgroundUpdate_turn
        \<lparr>prefix = ''foo/'', cache = [''foo/bar'' \<mapsto> \<lparr>Key = ''bar'', Value = [0x68], Clock = 3\<rparr>], clock = 3, exit = False\<rparr> 3
        (GetResponse 9 (Decoded
          [\<lparr>CreateIndex = 9, ModifyIndex = 9, Key = ''foo/baz'', Flags = 0, Value = [0x69]\<rparr>,
           \<lparr>CreateIndex = 4, ModifyIndex = 9, Key = ''foo/__sync'', Flags = 0, Value = [0x31]\<rparr>]))
        (GetResponse 9 (Decoded
          [\<lparr>CreateIndex = 4, ModifyIndex = 9, Key = ''foo/__sync'', Flags = 0, Value = [0x31]\<rparr>]))
      = Continue \<lparr>prefix = ''foo/'',
          cache = [''foo/__sync'' \<mapsto> \<lparr>Key = ''foo/__sync'', Value = [0x31], Clock = 9\<rparr>],
          clock = 9, exit = False\<rparr> 9
   \<and> BackgroundUpdate_turn
        \<lparr>prefix = ''foo/'', cache = [''foo/bar'' \<mapsto> \<lparr>Key = ''bar'', Value = [0x68], Clock = 3\<rparr>], clock = 3, exit = False\<rparr> 3
        (GetResponse 9 (Decoded
          [\<lparr>CreateIndex = 9, ModifyIndex = 9, Key = ''foo/baz'', Flags = 0, Value = [0x69]\<rparr>]))
        (GetError EOF)
      = Continue \<lparr>prefix = ''foo/'',
          cache = [''foo/bar'' \<mapsto> \<lparr>Key = ''bar'', Value = [0x68], Clock = 3\<rparr>,
                   ''foo/baz'' \<mapsto> \<lparr>Key = ''baz'', Value = [0x69], Clock = 9\<rparr>],
          clock = 9, exit = False\<rparr> 9"
proof -
  let ?c = "\<lparr>prefix = ''foo/'', cache = [''foo/bar'' \<mapsto> \<lparr>Key = ''bar'', Value = [0x68], Clock = 3\<rparr>], clock = 3, exit = False\<rparr>"
  let ?baz = "\<lparr>CreateIndex = 9, ModifyIndex = 9, Key = ''foo/baz'', Flags = 0, Value = [0x69]\<rparr>"
  let ?sync = "\<lparr>CreateIndex = 4, ModifyIndex = 9, Key = ''foo/__sync'', Flags = 0, Value = [0x31::8 word]\<rparr>"
  have e: "\<not> exit ?c" by simp
  have p2: "list_all (\<lambda>val. HasPrefix (consulValue.Key val) (prefix ?c)) [?baz, ?sync]"
    by (simp add: HasPrefix_def)
  have p1: "list_all (\<lambda>val. HasPrefix (consulValue.Key val) (prefix ?c)) [?baz]"
    by (simp add: HasPrefix_def)
  have n2: "[?baz, ?sync] \<noteq> []" and n1: "[?baz] \<noteq> []" by simp_all
  note a = BackgroundUpdate_sentinel_or_upsert [OF e n2 p2, of 3 9 "GetResponse 9 (Decoded [?sync])"]
  note b = BackgroundUpdate_sentinel_or_upsert [OF e n1 p1, of 3 9 "GetError EOF"]
  from a have a': "BackgroundUpdate_turn ?c 3 (GetResponse 9 (Decoded [?baz, ?sync])) (GetResponse 9 (Decoded [?sync]))
      = Continue \<lparr>prefix = ''foo/'',
          cache = [''foo/__sync'' \<mapsto> \<lparr>Key = ''foo/__sync'', Value = [0x31], Clock = 9\<rparr>],
          clock = 9, exit = False\<rparr> 9"
    by (simp add: Split_file_def listed_entry_def)
  from b have b': "BackgroundUpdate_turn ?c 3 (GetResponse 9 (Decoded [?baz])) (GetError EOF)
      = Continue \<lparr>prefix = ''foo/'',
          cache = [''foo/bar'' \<mapsto> \<lparr>Key = ''bar'', Value = [0x68], Clock = 3\<rparr>,
                   ''foo/baz'' \<mapsto> \<lparr>Key = ''baz'', Value = [0x69], Clock = 9\<rparr>],
          clock = 9, exit = False\<rparr> 9"
    by (simp add: Split_file_def merged_entry_def)
  from e p2 a' b' show ?thesis by simp
qed

section \<open>Repopulate: failures and the empty listing\<close>

text \<open>
  C7. \<^verbatim>\<open>Repopulate\<close> leaves the state (table, clock, and the rest) as it was in both
  cases without a replacement: a failed request or a failed decoding is returned to the
  caller, and a listing that decodes to no entry returns \<^verbatim>\<open>nil\<close>.
\<close>

theorem Repopulate_failure_or_empty_unchanged:
  "Repopulate c (GetError err) = (c, Some err)
   \<and> Repopulate c (GetResponse idx (DecodeError err)) = (c, Some err)
   \<and> Repopulate c (GetResponse idx (Decoded [])) = (c, None)"
  by simp

theorem Repopulate_failure_or_empty_unchanged_witness:
  "Repopulate
     \<lparr>prefix = ''foo/'', cache = [''foo/bar'' \<mapsto> \<lparr>Key = ''bar'', Value = [0x68, 0x69], Clock = 4\<rparr>],
      clock = 7, exit = False\<rparr>
     (GetError (Error ''connection refused''))
   = (\<lparr>prefix = ''foo/'', cache = [''foo/bar'' \<mapsto> \<lparr>Key = ''bar'', Value = [0x68, 0x69], Clock = 4\<rparr>],
       clock = 7, exit = False\<rparr>, Some (Error ''connection refused''))
   \<and> Repopulate
     \<lparr>prefix = ''foo/'', cache = [''foo/bar'' \<mapsto> \<lparr>Key = ''bar'', Value = [0x68, 0x69], Clock = 4\<rparr>],
      clock = 7, exit = False\<rparr>
     (GetResponse 9 (Decoded []))
   = (\<lparr>prefix = ''foo/'', cache = [''foo/bar'' \<mapsto> \<lparr>Key = ''bar'', Value = [0x68, 0x69], Clock = 4\<rparr>],
       clock = 7, exit = False\<rparr>, None)"
  using Repopulate_failure_or_empty_unchanged
    [of "\<lparr>prefix = ''foo/'', cache = [''foo/bar'' \<mapsto> \<lparr>Key = ''bar'', Value = [0x68, 0x69], Clock = 4\<rparr>],
          clock = 7, exit = False\<rparr>" "Error ''connection refused''" 9]
  by simp

section \<open>Repopulate: the replacement\<close>

text \<open>
  C8. On a listing that decodes to at least one value, \<^verbatim>\<open>Repopulate\<close> returns
  \<^verbatim>\<open>nil\<close>, sets the clock to the index of the listing, and replaces the table: its keys
  are the listed keys and every entry comes from a listed value with that key, so no
  earlier entry stays. When the listed keys differ from one another, the size is the
  number of listed values, every listed key holds the bytes and the modify index listed
  for it, and \<^verbatim>\<open>Get\<close> of a listed key, given relative to the prefix, returns that entry.
\<close>

theorem Repopulate_replaces_table:
  assumes "vals \<noteq> []"
  shows "snd (Repopulate c (GetResponse idx (Decoded vals))) = None
    \<and> clock (fst (Repopulate c (GetResponse idx (Decoded vals)))) = idx
    \<and> dom (cache (fst (Repopulate c (GetResponse idx (Decoded vals))))) = consulValue.Key ` set vals
    \<and> (\<forall>k e. cache (fst (Repopulate c (GetResponse idx (Decoded vals)))) k = Some e \<longrightarrow>
          (\<exists>val\<in>set vals. consulValue.Key val = k \<and> e = listed_entry val))
    \<and> Size (fst (Repopulate c (GetResponse idx (Decoded vals)))) = card (consulValue.Key ` set vals)
    \<and> (distinct (map consulValue.Key vals) \<longrightarrow>
          Size (fst (Repopulate c (GetResponse idx (Decoded vals)))) = length vals
          \<and> (\<forall>val\<in>set vals.
                cache (fst (Repopulate c (GetResponse idx (Decoded vals)))) (consulValue.Key val)
                  = Some (listed_entry val)
                \<and> (\<forall>k. consulValue.Key val = prefix c @ k \<longrightarrow>
                      Get (fst (Repopulate c (GetResponse idx (Decoded vals)))) k
                        = (Some (listed_entry val), True))))"
proof -
  let ?c' = "fst (Repopulate c (GetResponse idx (Decoded vals)))"
  have tbl: "cache ?c' = Repopulate_fill vals Map.empty" and pre: "prefix ?c' = prefix c"
    using assms by simp_all
  have 1: "snd (Repopulate c (GetResponse idx (Decoded vals))) = None" using assms by simp
  have 2: "clock ?c' = idx" using assms by simp
  have 3: "dom (cache ?c') = consulValue.Key ` set vals"
    by (simp only: tbl Repopulate_fill_dom) simp
  have 4: "\<forall>k e. cache ?c' k = Some e \<longrightarrow> (\<exists>val\<in>set vals. consulValue.Key val = k \<and> e = listed_entry val)"
    using Repopulate_fill_from [of vals Map.empty] by (simp only: tbl) fastforce
  have 5: "Size ?c' = card (consulValue.Key ` set vals)"
    by (simp only: Size_def 3)
  have 6: "Size ?c' = length vals" if "distinct (map consulValue.Key vals)"
  proof -
    have "card (set (map consulValue.Key vals)) = length (map consulValue.Key vals)"
      using that by (rule distinct_card)
    then show ?thesis by (simp add: 5 del: Repopulate.simps)
  qed
  have 7: "cache ?c' (consulValue.Key val) = Some (listed_entry val)"
    if "distinct (map consulValue.Key vals)" "val \<in> set vals" for val
    using Repopulate_fill_distinct [OF that] by (simp only: tbl)
  have 8: "Get ?c' k = (Some (listed_entry val), True)"
    if "distinct (map consulValue.Key vals)" "val \<in> set vals" "consulValue.Key val = prefix c @ k" for val k
    using 7 [OF that(1,2)] that(3) by (simp add: Get_def pre del: Repopulate.simps)
  from 1 2 3 4 5 6 7 8 show ?thesis by blast
qed

theorem Repopulate_replaces_table_witness:
  "snd (Repopulate
      \<lparr>prefix = ''foo/'', cache = [''foo/old'' \<mapsto> \<lparr>Key = ''old'', Value = [0x6F], Clock = 2\<rparr>], clock = 3, exit = False\<rparr>
      (GetResponse 9 (Decoded
        [\<lparr>CreateIndex = 5, ModifyIndex = 5, Key = ''foo/bar'', Flags = 0, Value = [0x68, 0x65, 0x6C, 0x6C, 0x6F]\<rparr>,
         \<lparr>CreateIndex = 9, ModifyIndex = 9, Key = ''foo/baz'', Flags = 0, Value = [0x69]\<rparr>]))) = None
   \<and> clock (fst (Repopulate
      \<lparr>prefix = ''foo/'', cache = [''foo/old'' \<mapsto> \<lparr>Key = ''old'', Value = [0x6F], Clock = 2\<rparr>], clock = 3, exit = False\<rparr>
      (GetResponse 9 (Decoded
        [\<lparr>CreateIndex = 5, ModifyIndex = 5, Key = ''foo/bar'', Flags = 0, Value = [0x68, 0x65, 0x6C, 0x6C, 0x6F]\<rparr>,
         \<lparr>CreateIndex = 9, ModifyIndex = 9, Key = ''foo/baz'', Flags = 0, Value = [0x69]\<rparr>])))) = 9
   \<and> Size (fst (Repopulate
      \<lparr>prefix = ''foo/'', cache = [''foo/old'' \<mapsto> \<lparr>Key = ''old'', Value = [0x6F], Clock = 2\<rparr>], clock = 3, exit = False\<rparr>
      (GetResponse 9 (Decoded
        [\<lparr>CreateIndex = 5, ModifyIndex = 5, Key = ''foo/bar'', Flags = 0, Value = [0x68, 0x65, 0x6C, 0x6C, 0x6F]\<rparr>,
         \<lparr>CreateIndex = 9, ModifyIndex = 9, Key = ''foo/baz'', Flags = 0, Value = [0x69]\<rparr>])))) = 2
   \<and> Get (fst (Repopulate
      \<lparr>prefix = ''foo/'', cache = [''foo/old'' \<mapsto> \<lparr>Key = ''old'', Value = [0x6F], Clock = 2\<rparr>], clock = 3, exit = False\<rparr>
      (GetResponse 9 (Decoded
        [\<lparr>CreateIndex = 5, ModifyIndex = 5, Key = ''foo/bar'', Flags = 0, Value = [0x68, 0x65, 0x6C, 0x6C, 0x6F]\<rparr>,
         \<lparr>CreateIndex = 9, ModifyIndex = 9, Key = ''foo/baz'', Flags = 0, Value = [0x69]\<rparr>])))) ''bar''
      = (Some \<lparr>Key = ''foo/bar'', Value = [0x68, 0x65, 0x6C, 0x6C, 0x6F], Clock = 5\<rparr>, True)
   \<and> Get (fst (Repopulate
      \<lparr>prefix = ''foo/'', cache = [''foo/old'' \<mapsto> \<lparr>Key = ''old'', Value = [0x6F], Clock = 2\<rparr>], clock = 3, exit = False\<rparr>
      (GetResponse 9 (Decoded
        [\<lparr>CreateIndex = 5, ModifyIndex = 5, Key = ''foo/bar'', Flags = 0, Value = [0x68, 0x65, 0x6C, 0x6C, 0x6F]\<rparr>,
         \<lparr>CreateIndex = 9, ModifyIndex = 9, Key = ''foo/baz'', Flags = 0, Value = [0x69]\<rparr>])))) ''old''
      = (None, False)"
proof -
  let ?c = "\<lparr>prefix = ''foo/'', cache = [''foo/old'' \<mapsto> \<lparr>Key = ''old'', Value = [0x6F], Clock = 2\<rparr>], clock = 3, exit = False\<rparr>"
  let ?vals = "[\<lparr>CreateIndex = 5, ModifyIndex = 5, Key = ''foo/bar'', Flags = 0, Value = [0x68, 0x65, 0x6C, 0x6C, 0x6F]\<rparr>,
         \<lparr>CreateIndex = 9, ModifyIndex = 9, Key = ''foo/baz'', Flags = 0, Value = [0x69::8 word]\<rparr>]"
  have n: "?vals \<noteq> []" by simp
  have d: "distinct (map consulValue.Key ?vals)" by simp
  note t = Repopulate_replaces_table [OF n, of ?c 9]
  from t have 1: "snd (Repopulate ?c (GetResponse 9 (Decoded ?vals))) = None"
    and 2: "clock (fst (Repopulate ?c (GetResponse 9 (Decoded ?vals)))) = 9"
    by blast+
  from t d have 3: "Size (fst (Repopulate ?c (GetResponse 9 (Decoded ?vals)))) = length ?vals"
    by blast
  have 4: "Get (fst (Repopulate ?c (GetResponse 9 (Decoded ?vals)))) ''bar''
      = (Some \<lparr>Key = ''foo/bar'', Value = [0x68, 0x65, 0x6C, 0x6C, 0x6F], Clock = 5\<rparr>, True)"
    by (simp add: Get_def listed_entry_def)
  have 5: "Get (fst (Repopulate ?c (GetResponse 9 (Decoded ?vals)))) ''old'' = (None, False)"
    by (simp add: Get_def listed_entry_def)
  from 1 2 3 4 5 show ?thesis by (simp del: Repopulate.simps)
qed

section \<open>GetPrefix\<close>

text \<open>
  C9, as the code has it. Whatever the order in which the keys of the table are visited,
  \<^verbatim>\<open>GetPrefix\<close> returns the entries of exactly the stored keys that start with the
  prefix of the cache followed by the argument, each once, and with them the greatest
  of zero and their versions; that is zero when no key matches. (The maximum starts at
  zero, so it is the greatest version as soon as one of the versions is not negative.)
\<close>

theorem GetPrefix_matches_and_max:
  assumes "distinct ks" and "set ks = dom (cache c)"
  shows "(\<exists>ms. distinct ms
            \<and> set ms = {k \<in> dom (cache c). HasPrefix k (prefix c @ p)}
            \<and> fst (GetPrefix c p ks) = map (\<lambda>k. the (cache c k)) ms)
    \<and> snd (GetPrefix c p ks) = Max (insert 0 (Clock ` set (fst (GetPrefix c p ks))))
    \<and> ((\<forall>k\<in>dom (cache c). \<not> HasPrefix k (prefix c @ p)) \<longrightarrow> GetPrefix c p ks = ([], 0))"
proof -
  let ?ms = "filter (\<lambda>k. cache c k \<noteq> None \<and> HasPrefix k (prefix c @ p)) ks"
  have g: "GetPrefix c p ks = (map (\<lambda>k. the (cache c k)) ?ms,
             fold max (map (\<lambda>k. Clock (the (cache c k))) ?ms) 0)"
    by (simp add: GetPrefix_def GetPrefix_loop_eq)
  have 1: "distinct ?ms" using assms(1) by simp
  have 2: "set ?ms = {k \<in> dom (cache c). HasPrefix k (prefix c @ p)}"
    using assms(2) by auto
  have 3: "fst (GetPrefix c p ks) = map (\<lambda>k. the (cache c k)) ?ms" by (simp add: g)
  have "set (map (\<lambda>k. Clock (the (cache c k))) ?ms) = Clock ` set (fst (GetPrefix c p ks))"
    by (simp only: 3 set_map image_image)
  then have 4: "snd (GetPrefix c p ks) = Max (insert 0 (Clock ` set (fst (GetPrefix c p ks))))"
    by (simp only: g snd_conv fold_max_Max)
  have 5: "GetPrefix c p ks = ([], 0)" if "\<forall>k\<in>dom (cache c). \<not> HasPrefix k (prefix c @ p)"
  proof -
    from that have "{k \<in> dom (cache c). HasPrefix k (prefix c @ p)} = {}" by blast
    with 2 have "set ?ms = {}" by (simp only:)
    then have "?ms = []" by (simp only: set_empty)
    then show ?thesis by (simp only: g) simp
  qed
  from 1 2 3 4 5 show ?thesis by blast
qed

theorem GetPrefix_matches_and_max_witness:
  "distinct [''foo/d'', ''foo/c/baz'', ''foo/c/bar'']
   \<and> GetPrefix
       \<lparr>prefix = ''foo/'',
        cache = [''foo/c/bar'' \<mapsto> \<lparr>Key = ''c/bar'', Value = [0x68], Clock = 5\<rparr>,
                 ''foo/c/baz'' \<mapsto> \<lparr>Key = ''c/baz'', Value = [0x69], Clock = 7\<rparr>,
                 ''foo/d'' \<mapsto> \<lparr>Key = ''d'', Value = [0x6A], Clock = 9\<rparr>],
        clock = 9, exit = False\<rparr> ''c'' [''foo/d'', ''foo/c/baz'', ''foo/c/bar'']
     = ([\<lparr>Key = ''c/baz'', Value = [0x69], Clock = 7\<rparr>, \<lparr>Key = ''c/bar'', Value = [0x68], Clock = 5\<rparr>], 7)
   \<and> GetPrefix
       \<lparr>prefix = ''foo/'',
        cache = [''foo/c/bar'' \<mapsto> \<lparr>Key = ''c/bar'', Value = [0x68], Clock = 5\<rparr>,
                 ''foo/c/baz'' \<mapsto> \<lparr>Key = ''c/baz'', Value = [0x69], Clock = 7\<rparr>,
                 ''foo/d'' \<mapsto> \<lparr>Key = ''d'', Value = [0x6A], Clock = 9\<rparr>],
        clock = 9, exit = False\<rparr> ''x'' [''foo/d'', ''foo/c/baz'', ''foo/c/bar'']
     = ([], 0)"
proof -
  let ?c = "\<lparr>prefix = ''foo/'',
        cache = [''foo/c/bar'' \<mapsto> \<lparr>Key = ''c/bar'', Value = [0x68], Clock = 5\<rparr>,
                 ''foo/c/baz'' \<mapsto> \<lparr>Key = ''c/baz'', Value = [0x69], Clock = 7\<rparr>,
                 ''foo/d'' \<mapsto> \<lparr>Key = ''d'', Value = [0x6A], Clock = 9\<rparr>],
        clock = 9, exit = False\<rparr>"
  let ?ks = "[''foo/d'', ''foo/c/baz'', ''foo/c/bar'']"
  have d: "distinct ?ks" by simp
  have s: "set ?ks = dom (cache ?c)" by auto
  note t = GetPrefix_matches_and_max [OF d s, of "''x''"]
  have none: "\<forall>k\<in>dom (cache ?c). \<not> HasPrefix k (prefix ?c @ ''x'')"
    by (simp add: HasPrefix_def)
  from t none have 2: "GetPrefix ?c ''x'' ?ks = ([], 0)" by blast
  have 1: "GetPrefix ?c ''c'' ?ks
     = ([\<lparr>Key = ''c/baz'', Value = [0x69], Clock = 7\<rparr>, \<lparr>Key = ''c/bar'', Value = [0x68], Clock = 5\<rparr>], 7)"
    by (simp add: GetPrefix_def HasPrefix_def)
  from d 1 2 show ?thesis by (intro conjI)
qed

text \<open>
  C9 as stated fails on an entry with a negative version, which \<^verbatim>\<open>ClockValue\<close>, a signed
  integer, admits: the only matching entry has version -1 and the maximum returned is 0.
\<close>

theorem GetPrefix_max_counterexample:
  "fst (GetPrefix \<lparr>prefix = ''foo/'', cache = [''foo/a'' \<mapsto> \<lparr>Key = ''a'', Value = [0x68], Clock = - 1\<rparr>], clock = 0, exit = False\<rparr> '''' [''foo/a''])
     = [\<lparr>Key = ''a'', Value = [0x68], Clock = - 1\<rparr>]
   \<and> snd (GetPrefix \<lparr>prefix = ''foo/'', cache = [''foo/a'' \<mapsto> \<lparr>Key = ''a'', Value = [0x68], Clock = - 1\<rparr>], clock = 0, exit = False\<rparr> '''' [''foo/a'']) = 0
   \<and> Max (Clock ` set [\<lparr>Key = ''a'', Value = [0x68], Clock = - 1\<rparr>]) = - 1"
  by (simp add: GetPrefix_def HasPrefix_def)

section \<open>Close, and the loop once the flag is set\<close>

text \<open>
  \<^verbatim>\<open>Close\<close> sets the flag and nothing else, so a second call changes nothing.
\<close>

theorem Close_sets_only_flag:
  "Close c = c\<lparr>exit := True\<rparr> \<and> Close (Close c) = Close c
   \<and> cache (Close c) = cache c \<and> clock (Close c) = clock c \<and> prefix (Close c) = prefix c"
  by (simp add: Close_def)

text \<open>
  Once the flag is set, whether before the turn or by a \<^verbatim>\<open>Close\<close> during its watch
  call, the loop returns at the check after that call, whatever the call returned, and
  the state is the one before the call with the flag set.
\<close>

theorem BackgroundUpdate_returns_once_closed:
  "BackgroundUpdate_loop c idx ((True, watch, listing) # rest) = Some (Returned (Close c))
   \<and> BackgroundUpdate_loop (Close c) idx ((closed, watch, listing) # rest) = Some (Returned (Close c))"
proof -
  have r: "BackgroundUpdate_turn (Close c) idx watch listing = Return (Close c)"
    by (cases "(Close c, idx, watch, listing)" rule: BackgroundUpdate_turn.cases)
       (auto simp: Close_def)
  have "(if closed then Close (Close c) else Close c) = Close c" by (simp add: Close_def)
  with r show ?thesis by simp
qed

text \<open>
  A \<^verbatim>\<open>Get\<close> right after a \<^verbatim>\<open>Set\<close> returns the bytes that were set, with the clock as
  the version, whatever the remote put returned.
\<close>

theorem Get_after_Set:
  "Get (fst (Set c k v put)) k = (Some \<lparr>Key = k, Value = v, Clock = clock c\<rparr>, True)"
  by (simp add: Get_def Set_def Let_def)

end
